theory Spec2Isabelle
  imports Main "HOL-Library.Sublist" "HOL-Library.Multiset"
begin

section \<open>Host values\<close>

text \<open>
  The client is a Node.js program. A JavaScript number that a comparator returns is either
  an integer (every number the comparators subtract is an integer count, a byte size or a
  millisecond timestamp, exact in the host below \<open>2^53\<close>) or \<open>NaN\<close>. Subtraction with \<open>NaN\<close> on either side is \<open>NaN\<close>.
\<close>

datatype jsnum = NaN | Num int

fun jsminus :: "jsnum \<Rightarrow> jsnum \<Rightarrow> jsnum" where
  "jsminus (Num a) (Num b) = Num (a - b)"
| "jsminus _ _ = NaN"

text \<open>
  \<open>v || 0\<close> on a numeric field of a result: a missing field (\<open>undefined\<close>), \<open>null\<close> and
  \<open>0\<close> are falsy and give \<open>0\<close>; any other number is kept.
\<close>

definition orZero :: "int option \<Rightarrow> int" where
  "orZero v = (case v of None \<Rightarrow> 0 | Some n \<Rightarrow> n)"

text \<open>
  What \<open>new Date(publishDate || 0)\<close> sees in the \<open>publishDate\<close> field of a result:
  \<^item> \<open>NoDate\<close>: the field is missing, \<open>null\<close> or the empty string (falsy, so the date
    is built from \<open>0\<close>);
  \<^item> \<open>BadDate\<close>: a non-empty string that \<open>Date\<close> cannot parse (an Invalid Date, whose
    numeric value is \<open>NaN\<close>);
  \<^item> \<open>ValidDate t\<close>: a string that parses to the timestamp \<open>t\<close> (milliseconds since
    the epoch).
\<close>

datatype pubdate = NoDate | BadDate | ValidDate int

fun dateValue :: "pubdate \<Rightarrow> jsnum" where
  "dateValue NoDate = Num 0"
| "dateValue BadDate = NaN"
| "dateValue (ValidDate t) = Num t"

section \<open>Search results and indexers\<close>

text \<open>
  Modelled from the spec: the shape of the records the aggregator returns, which no
  declaration in the sources fixes (they arrive as parsed JSON). A result has a title and
  an indexer name (strings), a nullable byte size and seeder count, a protocol string and
  a publish date; an indexer has a name and a priority. Only the fields the sort and the
  filter read are kept.
\<close>

record result =
  title :: string
  indexer :: string
  sizeBytes :: "int option"
  seeders :: "int option"
  protocol :: string
  publishDate :: pubdate

record indexerEntry =
  name :: string
  priority :: "int option"

text \<open>\<open>this.indexers.find(i => i.name === r.indexer)?.priority || 0\<close>\<close>

definition indexerPriority :: "indexerEntry list \<Rightarrow> result \<Rightarrow> int" where
  "indexerPriority indexers r =
     (case find (\<lambda>i. name i = indexer r) indexers of
        None \<Rightarrow> 0
      | Some i \<Rightarrow> orZero (priority i))"

section \<open>The sort comparator\<close>

text \<open>The values of the \<open>sortBy\<close> prompt (\<open>protocol_key\<close> is the value \<open>'protocol'\<close>).\<close>

datatype sortKey =
    title_asc | title_desc
  | seeders_desc | seeders_asc
  | size_desc | size_asc
  | date_desc | date_asc
  | protocol_key
  | indexer_priority_desc | indexer_priority_asc

text \<open>
  The comparator passed to \<open>sort\<close>. \<open>String.prototype.localeCompare\<close> is a builtin of
  the host whose collation depends on the locale; it is the parameter \<open>localeCompare\<close>.
  The prompt offers exactly the eleven keys, so the \<open>default\<close> branch is never taken.
\<close>

fun compareResults ::
  "(string \<Rightarrow> string \<Rightarrow> int) \<Rightarrow> indexerEntry list \<Rightarrow> sortKey \<Rightarrow> result \<Rightarrow> result \<Rightarrow> jsnum"
where
  "compareResults localeCompare indexers title_asc a b = Num (localeCompare (title a) (title b))"
| "compareResults localeCompare indexers title_desc a b = Num (localeCompare (title b) (title a))"
| "compareResults localeCompare indexers seeders_desc a b =
     jsminus (Num (orZero (seeders b))) (Num (orZero (seeders a)))"
| "compareResults localeCompare indexers seeders_asc a b =
     jsminus (Num (orZero (seeders a))) (Num (orZero (seeders b)))"
| "compareResults localeCompare indexers size_desc a b =
     jsminus (Num (orZero (sizeBytes b))) (Num (orZero (sizeBytes a)))"
| "compareResults localeCompare indexers size_asc a b =
     jsminus (Num (orZero (sizeBytes a))) (Num (orZero (sizeBytes b)))"
| "compareResults localeCompare indexers date_desc a b =
     jsminus (dateValue (publishDate b)) (dateValue (publishDate a))"
| "compareResults localeCompare indexers date_asc a b =
     jsminus (dateValue (publishDate a)) (dateValue (publishDate b))"
| "compareResults localeCompare indexers protocol_key a b =
     (if protocol a = ''usenet'' \<and> protocol b \<noteq> ''usenet'' then Num (- 1)
      else if protocol a \<noteq> ''usenet'' \<and> protocol b = ''usenet'' then Num 1
      else Num 0)"
| "compareResults localeCompare indexers indexer_priority_desc a b =
     jsminus (Num (indexerPriority indexers b)) (Num (indexerPriority indexers a))"
| "compareResults localeCompare indexers indexer_priority_asc a b =
     jsminus (Num (indexerPriority indexers a)) (Num (indexerPriority indexers b))"

section \<open>Array.prototype.sort\<close>

text \<open>
  The host's \<open>sort\<close> reads a comparator result of \<open>NaN\<close> as \<open>0\<close> and is stable: of two
  elements the comparator does not separate, the one that came first stays first. For a
  comparator that orders the elements consistently this fixes the result, the stable
  sorted permutation (\<open>mset_arraySort\<close>, \<open>sorted_wrt_arraySort\<close>, \<open>arraySort_stable\<close>
  below). It is computed here by insertion from the right end, each element going in
  front of the first element it does not have to follow. For a comparator that is not
  consistent the language standard leaves the order to the implementation; the function
  is then the order this way of sorting gives.
\<close>

definition sortCompare :: "('a \<Rightarrow> 'a \<Rightarrow> jsnum) \<Rightarrow> 'a \<Rightarrow> 'a \<Rightarrow> int" where
  "sortCompare comparefn x y = (case comparefn x y of NaN \<Rightarrow> 0 | Num v \<Rightarrow> v)"

fun insertInOrder :: "('a \<Rightarrow> 'a \<Rightarrow> jsnum) \<Rightarrow> 'a \<Rightarrow> 'a list \<Rightarrow> 'a list" where
  "insertInOrder comparefn x [] = [x]"
| "insertInOrder comparefn x (y # ys) =
     (if sortCompare comparefn x y \<le> 0 then x # y # ys
      else y # insertInOrder comparefn x ys)"

fun arraySort :: "('a \<Rightarrow> 'a \<Rightarrow> jsnum) \<Rightarrow> 'a list \<Rightarrow> 'a list" where
  "arraySort comparefn [] = []"
| "arraySort comparefn (x # xs) = insertInOrder comparefn x (arraySort comparefn xs)"

section \<open>Strings\<close>

text \<open>
  Strings are lists of characters. \<open>trim\<close> removes white space and line terminators from
  both ends (the code units below 256 that count as such are tab, line feed, vertical tab,
  form feed, carriage return, space and no-break space); \<open>stringIncludes\<close> (the method \<open>includes\<close>) looks for the search
  string at every position of the receiver. \<open>String.prototype.toLowerCase\<close> is a builtin
  of the host and is taken as the parameter \<open>toLowerCase\<close> wherever it is called.
\<close>

definition isWhiteSpace :: "char \<Rightarrow> bool" where
  "isWhiteSpace c = (of_char c \<in> {9, 10, 11, 12, 13, 32, 160 :: nat})"

definition trim :: "string \<Rightarrow> string" where
  "trim s = rev (dropWhile isWhiteSpace (rev (dropWhile isWhiteSpace s)))"

fun stringIncludes :: "string \<Rightarrow> string \<Rightarrow> bool" where
  "stringIncludes [] searchString = (searchString = [])"
| "stringIncludes (c # s) searchString =
     (take (length searchString) (c # s) = searchString \<or> stringIncludes s searchString)"

section \<open>The results loop\<close>

text \<open>
  The variables of the results loop hold references to arrays: \<open>currentResults\<close> starts
  as the very array \<open>results\<close>, so whether an operation writes into an array or builds a
  new one is visible through the other variable. The state therefore carries the arrays
  allocated so far, by reference. \<open>navigationStack\<close> is declared outside the search loop
  and outlives one results view; its entries all have type \<open>'results'\<close> and are kept as
  the reference in their \<open>data\<close> field.
\<close>

datatype message = NoMatchesFound | FoundMatching nat

datatype screen = ResultsList | ItemDetail result | MainMenu

record loopState =
  arrays :: "nat \<Rightarrow> result list option"
  nextRef :: nat
  results :: nat
  currentResults :: nat
  filteredResults :: "nat option"
  isFiltered :: bool
  navigationStack :: "nat list"
  screen :: screen
  console :: "message list"

definition deref :: "loopState \<Rightarrow> nat \<Rightarrow> result list" where
  "deref st a = (case arrays st a of None \<Rightarrow> [] | Some xs \<Rightarrow> xs)"

definition allocArray :: "result list \<Rightarrow> loopState \<Rightarrow> nat \<times> loopState" where
  "allocArray xs st =
     (nextRef st, st\<lparr> arrays := (arrays st)(nextRef st \<mapsto> xs), nextRef := Suc (nextRef st) \<rparr>)"

text \<open>\<open>[...arr]\<close> builds a new array with the elements of \<open>arr\<close>.\<close>

definition spreadCopy :: "nat \<Rightarrow> loopState \<Rightarrow> nat \<times> loopState" where
  "spreadCopy a st = allocArray (deref st a) st"

text \<open>\<open>arr.sort(f)\<close> sorts the array \<open>arr\<close> itself and returns the same reference.\<close>

definition sortInPlace ::
  "(result \<Rightarrow> result \<Rightarrow> jsnum) \<Rightarrow> nat \<Rightarrow> loopState \<Rightarrow> nat \<times> loopState" where
  "sortInPlace comparefn a st =
     (a, st\<lparr> arrays := (arrays st)(a \<mapsto> arraySort comparefn (deref st a)) \<rparr>)"

text \<open>\<open>arr.filter(p)\<close> builds a new array and leaves \<open>arr\<close> alone.\<close>

definition filterArray :: "(result \<Rightarrow> bool) \<Rightarrow> nat \<Rightarrow> loopState \<Rightarrow> nat \<times> loopState" where
  "filterArray p a st = allocArray (filter p (deref st a)) st"

text \<open>The sequence on display and the full sequence of the last search.\<close>

definition displayed :: "loopState \<Rightarrow> result list" where
  "displayed st = deref st (currentResults st)"

definition fullResults :: "loopState \<Rightarrow> result list" where
  "fullResults st = deref st (results st)"

text \<open>
  The state on entering the results loop with the answer \<open>rs\<close> of a search (the loop
  is only entered when \<open>rs\<close> is not empty; nothing below depends on it); \<open>older\<close> are
  the arrays of earlier searches still on the navigation stack.
\<close>

definition enterResults :: "result list list \<Rightarrow> result list \<Rightarrow> loopState" where
  "enterResults older rs =
     \<lparr> arrays = (\<lambda>a. if a < length older then Some (older ! a)
                     else if a = length older then Some rs else None),
       nextRef = Suc (length older),
       results = length older,
       currentResults = length older,
       filteredResults = None,
       isFiltered = False,
       navigationStack = [0 ..< length older],
       screen = ResultsList,
       console = [] \<rparr>"

text \<open>The branch \<open>selected === 'sort_results'\<close>, with the answer of the \<open>sortBy\<close> prompt.\<close>

definition sortResults ::
  "(string \<Rightarrow> string \<Rightarrow> int) \<Rightarrow> indexerEntry list \<Rightarrow> sortKey \<Rightarrow> loopState \<Rightarrow> loopState" where
  "sortResults localeCompare indexers sortBy st =
     (let (copy, st1) = spreadCopy (currentResults st) st;
          (sorted, st2) = sortInPlace (compareResults localeCompare indexers sortBy) copy st1
      in st2\<lparr> currentResults := sorted \<rparr>)"

text \<open>
  The branch \<open>selected === 'search_results'\<close>, with the answer of the search-term prompt.
  A blank answer falls through the whole chain and the loop shows the list again.
\<close>

definition searchResults :: "(string \<Rightarrow> string) \<Rightarrow> string \<Rightarrow> loopState \<Rightarrow> loopState" where
  "searchResults toLowerCase searchQuery st =
     (if trim searchQuery \<noteq> [] then
        (let searchTerm = toLowerCase searchQuery;
             (found, st1) =
                filterArray (\<lambda>r. stringIncludes (toLowerCase (title r)) searchTerm) (results st) st;
             st2 = st1\<lparr> filteredResults := Some found \<rparr>
         in if length (deref st2 found) = 0
            then st2\<lparr> console := console st2 @ [NoMatchesFound] \<rparr>
            else st2\<lparr> currentResults := found, isFiltered := True,
                       console := console st2 @ [FoundMatching (length (deref st2 found))] \<rparr>)
      else st)"

text \<open>The branch \<open>selected === 'show_all'\<close>.\<close>

definition showAll :: "loopState \<Rightarrow> loopState" where
  "showAll st = st\<lparr> currentResults := results st, filteredResults := None, isFiltered := False \<rparr>"

text \<open>
  \<open>Back to search\<close> (\<open>selected\<close> is \<open>null\<close>) breaks out of the results loop. The code
  after the loop pops the navigation stack when it is not empty, assigns the popped array
  to \<open>currentResults\<close>, and in either case continues the outer loop at the main menu.
\<close>

definition backToSearch :: "loopState \<Rightarrow> loopState" where
  "backToSearch st =
     (if length (navigationStack st) > 0
      then st\<lparr> navigationStack := butlast (navigationStack st),
               currentResults := last (navigationStack st),
               filteredResults := None, isFiltered := False, screen := MainMenu \<rparr>
      else st\<lparr> screen := MainMenu \<rparr>)"

text \<open>Selecting a result pushes the full array and opens the detail view.\<close>

definition selectItem :: "result \<Rightarrow> loopState \<Rightarrow> loopState" where
  "selectItem r st = st\<lparr> navigationStack := navigationStack st @ [results st], screen := ItemDetail r \<rparr>"

datatype selected =
    sort_results sortKey | search_results string | show_all | back_to_search | item result

datatype action =
    download_client | download_url | magnet_url | open_qbittorrent | more_info | go_back | main_menu

datatype input = Selected selected | Action action

text \<open>
  One answer of the user. In the detail view \<open>go_back\<close> (the value \<open>'back'\<close>) ends
  the detail loop; \<open>main_menu\<close> empties the navigation stack and its \<open>break\<close> leaves
  the detail loop, which is the innermost one, so both come back to the results list. The other actions print or call
  out and change none of these variables. An answer that the screen on display does not
  ask for changes nothing.
\<close>

fun step ::
  "(string \<Rightarrow> string) \<Rightarrow> (string \<Rightarrow> string \<Rightarrow> int) \<Rightarrow> indexerEntry list \<Rightarrow> input \<Rightarrow> loopState \<Rightarrow> loopState"
where
  "step toLowerCase localeCompare indexers (Selected s) st =
     (if screen st = ResultsList then
        (case s of
           sort_results sortBy \<Rightarrow> sortResults localeCompare indexers sortBy st
         | search_results searchQuery \<Rightarrow> searchResults toLowerCase searchQuery st
         | show_all \<Rightarrow> showAll st
         | back_to_search \<Rightarrow> backToSearch st
         | item r \<Rightarrow> selectItem r st)
      else st)"
| "step toLowerCase localeCompare indexers (Action a) st =
     (case screen st of
        ItemDetail r \<Rightarrow>
          (case a of
             go_back \<Rightarrow> st\<lparr> screen := ResultsList \<rparr>
           | main_menu \<Rightarrow> st\<lparr> navigationStack := [], screen := ResultsList \<rparr>
           | _ \<Rightarrow> st)
      | _ \<Rightarrow> st)"

definition run ::
  "(string \<Rightarrow> string) \<Rightarrow> (string \<Rightarrow> string \<Rightarrow> int) \<Rightarrow> indexerEntry list \<Rightarrow> input list \<Rightarrow> loopState \<Rightarrow> loopState"
where
  "run toLowerCase localeCompare indexers ins st =
     foldl (\<lambda>s i. step toLowerCase localeCompare indexers i s) st ins"

section \<open>Numbers as text\<close>

text \<open>
  \<open>String(n)\<close> for an integer \<open>n\<close> (below \<open>10^21\<close> in size, where the host switches
  to exponent notation): the decimal digits, with a minus sign for a negative number.
\<close>

text \<open>The digit \<open>d\<close>, for \<open>d\<close> below ten (it is never asked for another).\<close>

definition digitChar :: "nat \<Rightarrow> char" where
  "digitChar d = ''0123456789'' ! d"

fun showNat :: "nat \<Rightarrow> string" where
  "showNat n = (if n < 10 then [digitChar n] else showNat (n div 10) @ [digitChar (n mod 10)])"

declare showNat.simps [simp del]

definition toStringInt :: "int \<Rightarrow> string" where
  "toStringInt i = (if i < 0 then ''-'' @ showNat (nat (- i)) else showNat (nat i))"

section \<open>The query-string serializer\<close>

text \<open>
  The \<open>params\<close> object as the list of its own keys with their values, in the order
  \<open>Object.keys\<close> lists them. A value is an array (of category or indexer ids, numbers
  or strings) or a scalar string. \<open>encodeURIComponent\<close> is a builtin of the host and is
  a parameter.
\<close>

datatype paramElem = ElemNum int | ElemStr string

datatype paramValue = ArrayValue "paramElem list" | ScalarValue string

text \<open>An array element inside a template literal.\<close>

fun elemText :: "paramElem \<Rightarrow> string" where
  "elemText (ElemNum n) = toStringInt n"
| "elemText (ElemStr s) = s"

text \<open>The callback of \<open>Object.keys(params).forEach\<close>: what it adds to \<open>parts\<close>.\<close>

fun pushParam :: "(string \<Rightarrow> string) \<Rightarrow> string list \<Rightarrow> string \<times> paramValue \<Rightarrow> string list" where
  "pushParam encodeURIComponent parts (key, ArrayValue vs) =
     foldl (\<lambda>ps v. ps @ [key @ ''='' @ elemText v]) parts vs"
| "pushParam encodeURIComponent parts (key, ScalarValue value) =
     parts @ [key @ ''='' @ encodeURIComponent value]"

text \<open>\<open>parts.join(sep)\<close>\<close>

fun joinWith :: "string \<Rightarrow> string list \<Rightarrow> string" where
  "joinWith sep [] = []"
| "joinWith sep [p] = p"
| "joinWith sep (p # q # ps) = p @ sep @ joinWith sep (q # ps)"

definition paramsSerializer :: "(string \<Rightarrow> string) \<Rightarrow> (string \<times> paramValue) list \<Rightarrow> string" where
  "paramsSerializer encodeURIComponent params =
     joinWith ''&'' (foldl (pushParam encodeURIComponent) [] params)"


section \<open>The size humanizer\<close>

text \<open>
  \<open>formatSize\<close> takes the \<open>size\<close> field of a result: missing or \<open>null\<close> (\<open>None\<close>) or
  an integer number of bytes. \<open>Math.floor(Math.log(bytes) / Math.log(1024))\<close> is taken
  exactly, as the largest \<open>i\<close> with \<open>1024^i \<le> bytes\<close>; the quotient \<open>bytes / 1024^i\<close>
  is exact in the host too (a division by a power of two), and \<open>toFixed(2)\<close> rounds it
  to hundredths, a tie upwards. \<open>sizes[i]\<close> beyond the end of the array is
  \<open>undefined\<close>, which the template literal prints as that word. For a negative number
  the logarithm is \<open>NaN\<close>, and so are the index and the quotient.
\<close>

definition sizes :: "string list" where
  "sizes = [''B'', ''KB'', ''MB'', ''GB'', ''TB'']"

fun floorLog1024 :: "nat \<Rightarrow> nat" where
  "floorLog1024 n = (if n < 1024 then 0 else Suc (floorLog1024 (n div 1024)))"

declare floorLog1024.simps [simp del]

text \<open>\<open>(num / den).toFixed(2)\<close> for a non-negative quotient.\<close>

definition toFixed2 :: "nat \<Rightarrow> nat \<Rightarrow> string" where
  "toFixed2 num den =
     (let hundredths = (200 * num + den) div (2 * den)
      in showNat (hundredths div 100) @ ''.''
           @ [digitChar (hundredths mod 100 div 10), digitChar (hundredths mod 10)])"

definition formatSize :: "int option \<Rightarrow> string" where
  "formatSize bytes =
     (case bytes of
        None \<Rightarrow> ''Unknown''
      | Some b \<Rightarrow>
          if b = 0 then ''Unknown''
          else if b < 0 then ''NaN undefined''
          else (let i = floorLog1024 (nat b)
                in toFixed2 (nat b) (1024 ^ i) @ '' ''
                     @ (if i < length sizes then sizes ! i else ''undefined'')))"

section \<open>The configuration file\<close>

text \<open>
  A parsed JSON value. An object is the list of its keys with their values; a key is
  looked up from the front.
\<close>

datatype json =
    JNull | JBool bool | JNum int | JStr string | JArr "json list" | JObj "(string \<times> json) list"

text \<open>
  What \<open>loadConfig\<close> finds at \<open>configPath\<close>: no file (\<open>existsSync\<close> is false), a file
  that \<open>readFileSync\<close> cannot read, or the text of the file. \<open>JSON.parse\<close> is a builtin
  of the host and is a parameter: it gives the value, or \<open>None\<close> where it throws a
  \<open>SyntaxError\<close>.
\<close>

datatype configFile = NoFile | Unreadable | FileText string

datatype exn = SyntaxError | TypeError | SystemError

datatype logLine = CouldNotLoadConfig

text \<open>The fields of the client that \<open>loadConfig\<close> reads or writes, and what it prints.\<close>

record client =
  theme :: "(string \<times> json) list"
  settings :: "(string \<times> json) list"
  printed :: "logLine list"




text \<open>
  \<open>config.key\<close>: reading a property of \<open>null\<close> throws a \<open>TypeError\<close>; an object gives
  the value of the key or \<open>undefined\<close> (\<open>None\<close>); a boolean, a number, a string or an
  array has no property of these names.
\<close>

fun getProperty :: "json \<Rightarrow> string \<Rightarrow> exn + json option" where
  "getProperty JNull key = Inl TypeError"
| "getProperty (JObj kvs) key = Inr (map_of kvs key)"
| "getProperty _ key = Inr None"

fun truthy :: "json option \<Rightarrow> bool" where
  "truthy None = False"
| "truthy (Some JNull) = False"
| "truthy (Some (JBool b)) = b"
| "truthy (Some (JNum n)) = (n \<noteq> 0)"
| "truthy (Some (JStr s)) = (s \<noteq> [])"
| "truthy (Some (JArr xs)) = True"
| "truthy (Some (JObj kvs)) = True"

text \<open>
  The own enumerable properties that \<open>{...v}\<close> copies: the entries of an object, the
  elements of an array and the characters of a string under their indices, nothing for a
  boolean or a number.
\<close>

fun ownProperties :: "json \<Rightarrow> (string \<times> json) list" where
  "ownProperties (JObj kvs) = kvs"
| "ownProperties (JArr xs) = zip (map showNat [0 ..< length xs]) xs"
| "ownProperties (JStr s) = zip (map showNat [0 ..< length s]) (map (\<lambda>c. JStr [c]) s)"
| "ownProperties _ = []"

text \<open>Assigning a property: an existing key keeps its place, a new key goes last.\<close>

fun setProperty :: "(string \<times> json) list \<Rightarrow> string \<times> json \<Rightarrow> (string \<times> json) list" where
  "setProperty [] (key, v) = [(key, v)]"
| "setProperty ((k, w) # kvs) (key, v) =
     (if k = key then (k, v) # kvs else (k, w) # setProperty kvs (key, v))"

text \<open>\<open>{ ...base, ...v }\<close>\<close>

definition spreadOver :: "(string \<times> json) list \<Rightarrow> json \<Rightarrow> (string \<times> json) list" where
  "spreadOver base v = foldl setProperty base (ownProperties v)"

text \<open>
  The body of the \<open>try\<close> block: it returns the parsed configuration, or falls out of the
  block when there is no file (\<open>Inr None\<close>), or throws; the client as it is at that
  point comes with the outcome.
\<close>

definition tryLoadConfig ::
  "(string \<Rightarrow> json option) \<Rightarrow> configFile \<Rightarrow> client \<Rightarrow> (exn + json option) \<times> client" where
  "tryLoadConfig parse file this =
     (case file of
        NoFile \<Rightarrow> (Inr None, this)
      | Unreadable \<Rightarrow> (Inl SystemError, this)
      | FileText text \<Rightarrow>
          (case parse text of
             None \<Rightarrow> (Inl SyntaxError, this)
           | Some config \<Rightarrow>
               (case getProperty config ''theme'' of
                  Inl e \<Rightarrow> (Inl e, this)
                | Inr configTheme \<Rightarrow>
                    (let this1 = (if truthy configTheme
                                  then this\<lparr> theme := spreadOver (theme this) (the configTheme) \<rparr>
                                  else this)
                     in case getProperty config ''settings'' of
                          Inl e \<Rightarrow> (Inl e, this1)
                        | Inr configSettings \<Rightarrow>
                            (let this2 = (if truthy configSettings
                                          then this1\<lparr> settings :=
                                                 spreadOver (settings this1) (the configSettings) \<rparr>
                                          else this1)
                             in (Inr (Some config), this2))))))"

text \<open>The object the last line of \<open>loadConfig\<close> returns.\<close>

definition fallbackConfig :: "client \<Rightarrow> json" where
  "fallbackConfig this =
     JObj [(''serverUrl'', JStr ''''), (''apiKey'', JStr ''''), (''qbittorrentUrl'', JStr ''''),
           (''theme'', JObj (theme this)), (''settings'', JObj (settings this))]"

definition loadConfig ::
  "(string \<Rightarrow> json option) \<Rightarrow> configFile \<Rightarrow> client \<Rightarrow> json \<times> client" where
  "loadConfig parse file this =
     (case tryLoadConfig parse file this of
        (Inr (Some config), this') \<Rightarrow> (config, this')
      | (Inr None, this') \<Rightarrow> (fallbackConfig this', this')
      | (Inl e, this') \<Rightarrow>
          (let this'' = this'\<lparr> printed := printed this' @ [CouldNotLoadConfig] \<rparr>
           in (fallbackConfig this'', this'')))"

text \<open>The first version of the client (\<open>index.js\<close>) has no theme and no settings.\<close>

definition loadConfigBasic ::
  "(string \<Rightarrow> json option) \<Rightarrow> configFile \<Rightarrow> client \<Rightarrow> json \<times> client" where
  "loadConfigBasic parse file this =
     (case file of
        NoFile \<Rightarrow> (JObj [(''serverUrl'', JStr ''''), (''apiKey'', JStr '''')], this)
      | Unreadable \<Rightarrow>
          (JObj [(''serverUrl'', JStr ''''), (''apiKey'', JStr '''')],
           this\<lparr> printed := printed this @ [CouldNotLoadConfig] \<rparr>)
      | FileText text \<Rightarrow>
          (case parse text of
             None \<Rightarrow>
               (JObj [(''serverUrl'', JStr ''''), (''apiKey'', JStr '''')],
                this\<lparr> printed := printed this @ [CouldNotLoadConfig] \<rparr>)
           | Some config \<Rightarrow> (config, this)))"


section \<open>Notions the properties are stated with\<close>

text \<open>
  The results whose title contains the query, both case-folded: the title is some text,
  then the query, then some text. This is the reading of the filter's contract; the code
  computes it with \<open>filter\<close> and \<open>includes\<close>.
\<close>

definition matchingResults :: "(string \<Rightarrow> string) \<Rightarrow> string \<Rightarrow> result list \<Rightarrow> result list" where
  "matchingResults toLowerCase query rs =
     filter (\<lambda>r. sublist (toLowerCase query) (toLowerCase (title r))) rs"

text \<open>A result with its missing seeder count and size written out as \<open>0\<close>.\<close>

definition zeroFilled :: "result \<Rightarrow> result" where
  "zeroFilled r = r\<lparr> sizeBytes := Some (orZero (sizeBytes r)), seeders := Some (orZero (seeders r)) \<rparr>"

text \<open>A result with its missing publish date written out as the epoch.\<close>

definition epochFilled :: "result \<Rightarrow> result" where
  "epochFilled r =
     r\<lparr> publishDate := (case publishDate r of NoDate \<Rightarrow> ValidDate 0 | d \<Rightarrow> d) \<rparr>"

definition timestamp :: "result \<Rightarrow> int" where
  "timestamp r = (case publishDate r of ValidDate t \<Rightarrow> t | _ \<Rightarrow> 0)"

text \<open>
  The order a comparator asks for: \<open>a\<close> may stand before \<open>b\<close> when the comparator, as
  \<open>sort\<close> reads it, is not positive.
\<close>

definition mayPrecede ::
  "(string \<Rightarrow> string \<Rightarrow> int) \<Rightarrow> indexerEntry list \<Rightarrow> sortKey \<Rightarrow> result \<Rightarrow> result \<Rightarrow> bool" where
  "mayPrecede localeCompare indexers k a b =
     (sortCompare (compareResults localeCompare indexers k) a b \<le> 0)"

text \<open>
  What the language standard asks of \<open>localeCompare\<close>: it is a consistent comparison
  function, that is, a total preorder on strings read off the sign of its result.
\<close>

definition consistentComparator :: "(string \<Rightarrow> string \<Rightarrow> int) \<Rightarrow> bool" where
  "consistentComparator lc =
     ((\<forall>a b. (lc a b < 0) = (0 < lc b a))
      \<and> (\<forall>a b c. lc a b \<le> 0 \<and> lc b c \<le> 0 \<longrightarrow> lc a c \<le> 0))"

text \<open>For a date key, every publish date in the sequence is missing or parses.\<close>

definition datesParse :: "sortKey \<Rightarrow> result list \<Rightarrow> bool" where
  "datesParse k rs =
     (k \<in> {date_desc, date_asc} \<longrightarrow> (\<forall>r \<in> set rs. publishDate r \<noteq> BadDate))"

text \<open>
  The states the loop can be in for the search answer \<open>rs\<close>: \<open>results\<close> refers to an
  allocated array holding \<open>rs\<close>, and while the results view is open \<open>currentResults\<close>
  refers to an allocated array whose elements are elements of \<open>rs\<close>, each as often at
  most as in \<open>rs\<close>.
\<close>

definition wellFormed :: "result list \<Rightarrow> loopState \<Rightarrow> bool" where
  "wellFormed rs st =
     (arrays st (results st) = Some rs \<and> results st < nextRef st
      \<and> (screen st \<noteq> MainMenu \<longrightarrow>
           currentResults st < nextRef st
           \<and> (\<exists>xs. arrays st (currentResults st) = Some xs \<and> mset xs \<subseteq># mset rs)))"

text \<open>Sample data for the closed instances below.\<close>

definition sampleResult :: "string \<Rightarrow> int option \<Rightarrow> int option \<Rightarrow> pubdate \<Rightarrow> result" where
  "sampleResult t sd sz d =
     \<lparr> title = t, indexer = ''idx'', sizeBytes = sz, seeders = sd,
       protocol = ''torrent'', publishDate = d \<rparr>"

text \<open>A collation for the closed instances: by length, then nothing.\<close>

definition lengthCompare :: "string \<Rightarrow> string \<Rightarrow> int" where
  "lengthCompare s t = int (length s) - int (length t)"

text \<open>A case folding for the closed instances: the letters A to Z.\<close>

definition asciiLower :: "string \<Rightarrow> string" where
  "asciiLower s =
     map (\<lambda>c. case map_of (zip ''ABCDEFGHIJKLMNOPQRSTUVWXYZ'' ''abcdefghijklmnopqrstuvwxyz'') c of
                None \<Rightarrow> c | Some l \<Rightarrow> l) s"

section \<open>Properties of the comparator and the sort\<close>

lemma orZero_simps [simp]: "orZero None = 0" "orZero (Some n) = n"
  by (simp_all add: orZero_def)

lemma mset_insertInOrder [simp]: "mset (insertInOrder f x ys) = add_mset x (mset ys)"
  by (induction ys) simp_all

lemma mset_arraySort [simp]: "mset (arraySort f xs) = mset xs"
  by (induction xs) simp_all

lemma set_insertInOrder [simp]: "set (insertInOrder f x ys) = insert x (set ys)"
  by (induction ys) auto

lemma set_arraySort [simp]: "set (arraySort f xs) = set xs"
  by (induction xs) simp_all

lemma length_insertInOrder [simp]: "length (insertInOrder f x ys) = Suc (length ys)"
  by (induction ys) simp_all

lemma length_arraySort [simp]: "length (arraySort f xs) = length xs"
  by (induction xs) simp_all

lemma arraySort_map_commute:
  assumes "\<And>a b. comparefn (f a) (f b) = comparefn a b"
  shows "arraySort comparefn (map f xs) = map f (arraySort comparefn xs)"
proof -
  have ins: "insertInOrder comparefn (f x) (map f ys) = map f (insertInOrder comparefn x ys)"
    for x ys
    by (induction ys) (simp_all add: sortCompare_def assms)
  show ?thesis
    by (induction xs) (simp_all add: ins)
qed

lemma sorted_wrt_insertInOrder:
  assumes srt: "sorted_wrt (\<lambda>a b. sortCompare f a b \<le> 0) ys"
    and total: "\<forall>y \<in> set ys. 0 < sortCompare f x y \<longrightarrow> sortCompare f y x \<le> 0"
    and trans: "\<forall>y \<in> set ys. \<forall>z \<in> set ys.
                  sortCompare f x y \<le> 0 \<longrightarrow> sortCompare f y z \<le> 0 \<longrightarrow> sortCompare f x z \<le> 0"
  shows "sorted_wrt (\<lambda>a b. sortCompare f a b \<le> 0) (insertInOrder f x ys)"
  using srt total trans
proof (induction ys)
  case Nil
  then show ?case by simp
next
  case (Cons y ys)
  have srt_ys: "sorted_wrt (\<lambda>a b. sortCompare f a b \<le> 0) ys"
    and y_first: "\<forall>z \<in> set ys. sortCompare f y z \<le> 0"
    using Cons.prems(1) by simp_all
  show ?case
  proof (cases "sortCompare f x y \<le> 0")
    case True
    have "sortCompare f x z \<le> 0" if "z \<in> set ys" for z
    proof -
      have "sortCompare f y z \<le> 0" using y_first that by blast
      moreover have "y \<in> set (y # ys)" "z \<in> set (y # ys)" using that by simp_all
      ultimately show ?thesis using Cons.prems(3) True by blast
    qed
    then have "\<forall>z \<in> set (y # ys). sortCompare f x z \<le> 0"
      using True by simp
    then show ?thesis using True Cons.prems(1) by simp
  next
    case False
    have "\<forall>y \<in> set ys. 0 < sortCompare f x y \<longrightarrow> sortCompare f y x \<le> 0"
      using Cons.prems(2) by (meson list.set_intros(2))
    moreover have "\<forall>y \<in> set ys. \<forall>z \<in> set ys.
        sortCompare f x y \<le> 0 \<longrightarrow> sortCompare f y z \<le> 0 \<longrightarrow> sortCompare f x z \<le> 0"
      using Cons.prems(3) by (meson list.set_intros(2))
    ultimately have ih: "sorted_wrt (\<lambda>a b. sortCompare f a b \<le> 0) (insertInOrder f x ys)"
      using Cons.IH srt_ys by blast
    have "y \<in> set (y # ys)" by simp
    then have "sortCompare f y x \<le> 0" using Cons.prems(2) False by (meson not_le)
    then show ?thesis using False ih y_first by simp
  qed
qed

lemma sorted_wrt_arraySort:
  assumes total: "\<forall>x \<in> set xs. \<forall>y \<in> set xs. 0 < sortCompare f x y \<longrightarrow> sortCompare f y x \<le> 0"
    and trans: "\<forall>x \<in> set xs. \<forall>y \<in> set xs. \<forall>z \<in> set xs.
                  sortCompare f x y \<le> 0 \<longrightarrow> sortCompare f y z \<le> 0 \<longrightarrow> sortCompare f x z \<le> 0"
  shows "sorted_wrt (\<lambda>a b. sortCompare f a b \<le> 0) (arraySort f xs)"
  using total trans
proof (induction xs)
  case Nil
  show ?case by simp
next
  case (Cons x xs)
  have tot: "sortCompare f b a \<le> 0"
    if "a \<in> set (x # xs)" "b \<in> set (x # xs)" "0 < sortCompare f a b" for a b
    using Cons.prems(1) that by blast
  have tr: "sortCompare f a c \<le> 0"
    if "a \<in> set (x # xs)" "b \<in> set (x # xs)" "c \<in> set (x # xs)"
       "sortCompare f a b \<le> 0" "sortCompare f b c \<le> 0" for a b c
    using Cons.prems(2) that by blast
  have ih: "sorted_wrt (\<lambda>a b. sortCompare f a b \<le> 0) (arraySort f xs)"
  proof (rule Cons.IH)
    show "\<forall>x \<in> set xs. \<forall>y \<in> set xs. 0 < sortCompare f x y \<longrightarrow> sortCompare f y x \<le> 0"
    proof (intro ballI impI)
      fix a b assume "a \<in> set xs" "b \<in> set xs" "0 < sortCompare f a b"
      then show "sortCompare f b a \<le> 0" using tot [of a b] by simp
    qed
    show "\<forall>x \<in> set xs. \<forall>y \<in> set xs. \<forall>z \<in> set xs.
      sortCompare f x y \<le> 0 \<longrightarrow> sortCompare f y z \<le> 0 \<longrightarrow> sortCompare f x z \<le> 0"
    proof (intro ballI impI)
      fix a b c assume "a \<in> set xs" "b \<in> set xs" "c \<in> set xs"
        "sortCompare f a b \<le> 0" "sortCompare f b c \<le> 0"
      then show "sortCompare f a c \<le> 0" using tr [of a b c] by simp
    qed
  qed
  have "sorted_wrt (\<lambda>a b. sortCompare f a b \<le> 0) (insertInOrder f x (arraySort f xs))"
  proof (rule sorted_wrt_insertInOrder [OF ih]; intro ballI impI)
    fix b assume "b \<in> set (arraySort f xs)" "0 < sortCompare f x b"
    then show "sortCompare f b x \<le> 0" using tot [of x b] by simp
  next
    fix b c assume "b \<in> set (arraySort f xs)" "c \<in> set (arraySort f xs)"
      "sortCompare f x b \<le> 0" "sortCompare f b c \<le> 0"
    then show "sortCompare f x c \<le> 0" using tr [of x b c] by simp
  qed
  then show ?case by simp
qed





subsection \<open>Ties keep their order\<close>

lemma filter_insertInOrder_other:
  "\<not> P x \<Longrightarrow> filter P (insertInOrder f x ys) = filter P ys"
  by (induction ys) simp_all

lemma filter_insertInOrder_tie:
  assumes tie: "sortCompare f k x = 0"
    and sym: "\<And>a b. sortCompare f a b = 0 \<Longrightarrow> sortCompare f b a = 0"
    and trans: "\<And>a b c. sortCompare f a b \<le> 0 \<Longrightarrow> sortCompare f b c \<le> 0
                  \<Longrightarrow> sortCompare f a c \<le> 0"
  shows "filter (\<lambda>y. sortCompare f k y = 0) (insertInOrder f x ys)
           = x # filter (\<lambda>y. sortCompare f k y = 0) ys"
proof (induction ys)
  case Nil
  show ?case using tie by simp
next
  case (Cons y ys)
  show ?case
  proof (cases "sortCompare f x y \<le> 0")
    case True
    then show ?thesis using tie by simp
  next
    case False
    have "sortCompare f k y \<noteq> 0"
    proof
      assume ky: "sortCompare f k y = 0"
      have "sortCompare f x k \<le> 0" using sym [OF tie] by simp
      moreover have "sortCompare f k y \<le> 0" using ky by simp
      ultimately have "sortCompare f x y \<le> 0" by (rule trans)
      then show False using False by simp
    qed
    then show ?thesis using False Cons.IH by simp
  qed
qed

lemma arraySort_stable:
  assumes sym: "\<And>a b. sortCompare f a b = 0 \<Longrightarrow> sortCompare f b a = 0"
    and trans: "\<And>a b c. sortCompare f a b \<le> 0 \<Longrightarrow> sortCompare f b c \<le> 0
                  \<Longrightarrow> sortCompare f a c \<le> 0"
  shows "filter (\<lambda>y. sortCompare f k y = 0) (arraySort f xs)
           = filter (\<lambda>y. sortCompare f k y = 0) xs"
proof (induction xs)
  case Nil
  show ?case by simp
next
  case (Cons x xs)
  show ?case
  proof (cases "sortCompare f k x = 0")
    case True
    then show ?thesis
      using Cons.IH filter_insertInOrder_tie [of f k x, OF True sym trans] by simp
  next
    case False
    then show ?thesis
      using Cons.IH by (simp add: filter_insertInOrder_other)
  qed
qed

subsection \<open>The comparator of the results\<close>

lemma stringIncludes_iff_sublist: "stringIncludes s t = sublist t s"
proof (induction s)
  case Nil
  show ?case by auto
next
  case (Cons c s)
  have "prefix t (c # s) = (take (length t) (c # s) = t)"
    by (metis prefix_def append_eq_conv_conj append_take_drop_id)
  then show ?case
    using Cons.IH by (simp add: sublist_Cons_right)
qed

lemma sortCompare_simps:
  "sortCompare (compareResults lc ixs title_asc) a b = lc (title a) (title b)"
  "sortCompare (compareResults lc ixs title_desc) a b = lc (title b) (title a)"
  "sortCompare (compareResults lc ixs seeders_desc) a b = orZero (seeders b) - orZero (seeders a)"
  "sortCompare (compareResults lc ixs seeders_asc) a b = orZero (seeders a) - orZero (seeders b)"
  "sortCompare (compareResults lc ixs size_desc) a b = orZero (sizeBytes b) - orZero (sizeBytes a)"
  "sortCompare (compareResults lc ixs size_asc) a b = orZero (sizeBytes a) - orZero (sizeBytes b)"
  "sortCompare (compareResults lc ixs indexer_priority_desc) a b
     = indexerPriority ixs b - indexerPriority ixs a"
  "sortCompare (compareResults lc ixs indexer_priority_asc) a b
     = indexerPriority ixs a - indexerPriority ixs b"
  "sortCompare (compareResults lc ixs protocol_key) a b
     = (if protocol a = ''usenet'' then 0 else 1) - (if protocol b = ''usenet'' then 0 else 1)"
  by (simp_all add: sortCompare_def)

lemma sortCompare_dates:
  "sortCompare (compareResults lc ixs date_asc) a b
     = (if publishDate a = BadDate \<or> publishDate b = BadDate then 0
        else timestamp a - timestamp b)"
  "sortCompare (compareResults lc ixs date_desc) a b
     = (if publishDate a = BadDate \<or> publishDate b = BadDate then 0
        else timestamp b - timestamp a)"
  by (cases "publishDate a"; cases "publishDate b"; simp add: sortCompare_def timestamp_def)+

lemma sortCompare_antisym:
  assumes "consistentComparator lc"
    and "0 < sortCompare (compareResults lc ixs k) a b"
  shows "sortCompare (compareResults lc ixs k) b a \<le> 0"
proof -
  have lc: "lc t s \<le> 0" if "0 < lc s t" for s t
    using assms(1) that unfolding consistentComparator_def by (metis order.strict_implies_order)
  show ?thesis
    using assms(2) lc [of "title a" "title b"] lc [of "title b" "title a"]
    by (cases k) (simp_all only: sortCompare_simps sortCompare_dates split: if_splits, simp_all)
qed

lemma sortCompare_trans:
  assumes "consistentComparator lc"
    and "k \<in> {date_desc, date_asc} \<longrightarrow>
           publishDate a \<noteq> BadDate \<and> publishDate b \<noteq> BadDate \<and> publishDate c \<noteq> BadDate"
    and "sortCompare (compareResults lc ixs k) a b \<le> 0"
    and "sortCompare (compareResults lc ixs k) b c \<le> 0"
  shows "sortCompare (compareResults lc ixs k) a c \<le> 0"
proof -
  have lc: "lc s u \<le> 0" if "lc s t \<le> 0" "lc t u \<le> 0" for s t u
    using assms(1) that unfolding consistentComparator_def by blast
  show ?thesis
    using assms(2,3,4) lc [of "title a" "title b" "title c"] lc [of "title c" "title b" "title a"]
    by (cases k) (simp_all only: sortCompare_simps sortCompare_dates split: if_splits, simp_all)
qed

lemma sorted_by_key:
  assumes "consistentComparator lc" and "datesParse k rs"
  shows "sorted_wrt (mayPrecede lc ixs k) (arraySort (compareResults lc ixs k) rs)"
proof -
  have "sorted_wrt (\<lambda>a b. sortCompare (compareResults lc ixs k) a b \<le> 0)
          (arraySort (compareResults lc ixs k) rs)"
  proof (rule sorted_wrt_arraySort; intro ballI impI)
    fix a b assume "0 < sortCompare (compareResults lc ixs k) a b"
    then show "sortCompare (compareResults lc ixs k) b a \<le> 0"
      by (rule sortCompare_antisym [OF assms(1)])
  next
    fix a b c assume "a \<in> set rs" "b \<in> set rs" "c \<in> set rs"
      and ab: "sortCompare (compareResults lc ixs k) a b \<le> 0"
      and bc: "sortCompare (compareResults lc ixs k) b c \<le> 0"
    then have "k \<in> {date_desc, date_asc} \<longrightarrow>
           publishDate a \<noteq> BadDate \<and> publishDate b \<noteq> BadDate \<and> publishDate c \<noteq> BadDate"
      using assms(2) unfolding datesParse_def by blast
    then show "sortCompare (compareResults lc ixs k) a c \<le> 0"
      using ab bc by (rule sortCompare_trans [OF assms(1)])
  qed
  then show ?thesis
    unfolding mayPrecede_def .
qed


lemma consistent_lengthCompare: "consistentComparator lengthCompare"
  unfolding consistentComparator_def lengthCompare_def by auto

section \<open>Properties of the results loop\<close>

lemmas loop_defs =
  sortResults_def searchResults_def showAll_def backToSearch_def selectItem_def
  spreadCopy_def sortInPlace_def filterArray_def allocArray_def
  deref_def displayed_def fullResults_def

lemma wellFormed_enterResults: "wellFormed rs (enterResults older rs)"
  by (simp add: wellFormed_def enterResults_def)

lemma wellFormed_sortResults:
  "wellFormed rs st \<Longrightarrow> screen st = ResultsList \<Longrightarrow> wellFormed rs (sortResults lc ixs k st)"
  by (auto simp: wellFormed_def loop_defs)

lemma wellFormed_searchResults:
  "wellFormed rs st \<Longrightarrow> screen st = ResultsList \<Longrightarrow> wellFormed rs (searchResults lower q st)"
  by (auto simp: wellFormed_def loop_defs Let_def)

lemma wellFormed_step:
  assumes "wellFormed rs st"
  shows "wellFormed rs (step lower lc ixs i st)"
proof (cases i)
  case (Selected s)
  show ?thesis
  proof (cases "screen st = ResultsList")
    case True
    then show ?thesis
      using assms Selected wellFormed_sortResults wellFormed_searchResults
      by (cases s) (auto simp: wellFormed_def showAll_def backToSearch_def selectItem_def)
  next
    case False
    then show ?thesis using assms Selected by simp
  qed
next
  case (Action a)
  then show ?thesis
    using assms by (cases "screen st"; cases a) (auto simp: wellFormed_def)
qed

lemma wellFormed_run:
  "wellFormed rs st \<Longrightarrow> wellFormed rs (run lower lc ixs ins st)"
  unfolding run_def
  by (induction ins arbitrary: st) (simp_all add: wellFormed_step)

lemma wellFormed_reachable:
  "wellFormed rs (run lower lc ixs ins (enterResults older rs))"
  by (rule wellFormed_run) (rule wellFormed_enterResults)

lemma wellFormed_fullResults: "wellFormed rs st \<Longrightarrow> fullResults st = rs"
  by (simp add: wellFormed_def fullResults_def deref_def)

lemma wellFormed_displayed:
  "wellFormed rs st \<Longrightarrow> screen st \<noteq> MainMenu \<Longrightarrow> mset (displayed st) \<subseteq># mset rs"
  by (auto simp: wellFormed_def displayed_def deref_def)

lemma sortResults_effect:
  assumes "wellFormed rs st" and "screen st = ResultsList"
  shows "displayed (sortResults lc ixs k st) = arraySort (compareResults lc ixs k) (displayed st)"
    and "deref (sortResults lc ixs k st) (currentResults st) = displayed st"
    and "currentResults (sortResults lc ixs k st) \<noteq> currentResults st"
    and "fullResults (sortResults lc ixs k st) = rs"
    and "screen (sortResults lc ixs k st) = ResultsList"
  using assms by (auto simp: wellFormed_def loop_defs)

lemma searchResults_effect:
  assumes "wellFormed rs st" and "trim q \<noteq> []"
  shows "\<exists>f. filteredResults (searchResults lower q st) = Some f
           \<and> deref (searchResults lower q st) f = matchingResults lower q rs"
    and "matchingResults lower q rs \<noteq> [] \<Longrightarrow>
           displayed (searchResults lower q st) = matchingResults lower q rs
           \<and> isFiltered (searchResults lower q st)"
    and "matchingResults lower q rs = [] \<Longrightarrow>
           currentResults (searchResults lower q st) = currentResults st
           \<and> isFiltered (searchResults lower q st) = isFiltered st
           \<and> console (searchResults lower q st) = console st @ [NoMatchesFound]"
    and "screen st \<noteq> MainMenu \<Longrightarrow> matchingResults lower q rs = [] \<Longrightarrow>
           displayed (searchResults lower q st) = displayed st"
    and "fullResults (searchResults lower q st) = rs"
    and "screen (searchResults lower q st) = screen st"
  using assms
  by (auto simp: wellFormed_def loop_defs Let_def matchingResults_def stringIncludes_iff_sublist)

section \<open>Properties of the serializer, the size humanizer and the configuration\<close>





lemma serializer_example:
  "paramsSerializer enc
     [(''query'', ScalarValue ''a b''), (''type'', ScalarValue ''search''),
      (''categories'', ArrayValue [ElemNum 2000]),
      (''indexerIds'', ArrayValue [ElemNum 1, ElemNum 12])]
   = ''query='' @ enc ''a b'' @ ''&type='' @ enc ''search''
       @ ''&categories=2000&indexerIds=1&indexerIds=12''"
  by (simp add: paramsSerializer_def toStringInt_def showNat.simps digitChar_def)

lemma floorLog1024_bounds:
  "0 < n \<Longrightarrow> 1024 ^ floorLog1024 n \<le> n \<and> n < 1024 ^ Suc (floorLog1024 n)"
proof (induction n rule: floorLog1024.induct)
  case (1 n)
  show ?case
  proof (cases "n < 1024")
    case True
    then show ?thesis using "1.prems" by (simp add: floorLog1024.simps)
  next
    case False
    then have pos: "0 < n div 1024" by simp
    have ih: "1024 ^ floorLog1024 (n div 1024) \<le> n div 1024
        \<and> n div 1024 < 1024 ^ Suc (floorLog1024 (n div 1024))"
      using "1.IH" [OF False pos] .
    have fl: "floorLog1024 n = Suc (floorLog1024 (n div 1024))"
      using False by (simp add: floorLog1024.simps)
    have "1024 * 1024 ^ floorLog1024 (n div 1024) \<le> 1024 * (n div 1024)"
      using ih by simp
    also have "\<dots> \<le> n" by simp
    finally have lo: "1024 ^ floorLog1024 n \<le> n" by (simp add: fl)
    have "n < 1024 * (n div 1024 + 1)"
      by (metis Suc_eq_plus1 dividend_less_times_div mult.commute mult_Suc_right zero_less_numeral add.commute)
    also have "\<dots> \<le> 1024 * 1024 ^ Suc (floorLog1024 (n div 1024))"
      using ih by (simp del: power_Suc)
    finally have hi: "n < 1024 ^ Suc (floorLog1024 n)" by (simp add: fl)
    show ?thesis using lo hi by simp
  qed
qed

lemma floorLog1024_less:
  assumes "0 < n" and "n < 1024 ^ k"
  shows "floorLog1024 n < k"
proof (rule ccontr)
  assume "\<not> floorLog1024 n < k"
  then have "k \<le> floorLog1024 n" by simp
  then have "(1024::nat) ^ k \<le> 1024 ^ floorLog1024 n"
    by (simp add: power_increasing)
  also have "\<dots> \<le> n"
    using floorLog1024_bounds [OF assms(1)] by blast
  finally have "1024 ^ k \<le> n" .
  with assms(2) show False
    by linarith
qed

lemma formatSize_in_range:
  assumes "0 < b" and "b < 1024 ^ 5"
  shows "\<exists>i < 5. 1024 ^ i \<le> b \<and> b < 1024 ^ Suc i
           \<and> formatSize (Some b) = toFixed2 (nat b) (1024 ^ i) @ '' '' @ sizes ! i"
proof -
  let ?i = "floorLog1024 (nat b)"
  have pos: "0 < nat b" using assms(1) by simp
  have "nat b < 1024 ^ 5" using assms by (simp add: nat_less_iff)
  then have i5: "?i < 5" by (rule floorLog1024_less [OF pos])
  have b: "1024 ^ ?i \<le> nat b \<and> nat b < 1024 ^ Suc ?i"
    by (rule floorLog1024_bounds [OF pos])
  have lo: "1024 ^ ?i \<le> b"
  proof -
    have "int (1024 ^ ?i) \<le> int (nat b)" using b by (simp only: of_nat_le_iff)
    then show ?thesis using assms(1) by simp
  qed
  have hi: "b < 1024 ^ Suc ?i"
  proof -
    have "int (nat b) < int (1024 ^ Suc ?i)" using b by (simp only: of_nat_less_iff)
    then show ?thesis using assms(1) by simp
  qed
  have "formatSize (Some b) = toFixed2 (nat b) (1024 ^ ?i) @ '' '' @ sizes ! ?i"
    using assms(1) i5 by (simp add: formatSize_def Let_def sizes_def)
  then show ?thesis using i5 lo hi by blast
qed

lemma formatSize_beyond_units:
  assumes "1024 ^ 5 \<le> b"
  shows "formatSize (Some b)
           = toFixed2 (nat b) (1024 ^ floorLog1024 (nat b)) @ '' undefined''"
proof -
  have pos: "0 < nat b" using assms by simp
  have "(1024::nat) ^ 5 \<le> nat b"
    using assms by (simp add: le_nat_iff)
  moreover have "nat b < 1024 ^ Suc (floorLog1024 (nat b))"
    using floorLog1024_bounds [OF pos] by blast
  ultimately have "(1024::nat) ^ 5 < 1024 ^ Suc (floorLog1024 (nat b))"
    by (rule le_less_trans)
  then have "5 < Suc (floorLog1024 (nat b))"
    by (simp only: power_strict_increasing_iff one_less_numeral_iff semiring_norm)
  then have "\<not> floorLog1024 (nat b) < length sizes"
    by (simp add: sizes_def)
  then show ?thesis
    using assms by (simp add: formatSize_def Let_def)
qed

lemma loadConfig_null_file:
  "parse text = Some JNull \<Longrightarrow>
   loadConfig parse (FileText text) this
     = (fallbackConfig (this\<lparr> printed := printed this @ [CouldNotLoadConfig] \<rparr>),
        this\<lparr> printed := printed this @ [CouldNotLoadConfig] \<rparr>)"
  by (simp add: loadConfig_def tryLoadConfig_def Let_def)

lemma loadConfigBasic_defaults:
  "file = NoFile \<or> file = Unreadable \<or> (\<exists>text. file = FileText text \<and> parse text = None) \<Longrightarrow>
   fst (loadConfigBasic parse file this) = JObj [(''serverUrl'', JStr ''''), (''apiKey'', JStr '''')]"
  by (auto simp: loadConfigBasic_def)

section \<open>The claims\<close>

text \<open>
  In the theorems below a state of the results loop is any state \<open>run \<dots> ins
  (enterResults older rs)\<close>: the loop entered with the search answer \<open>rs\<close>, after any
  sequence \<open>ins\<close> of answers of the user (sorts, filters, show-all, selections, returns
  from the detail view), whatever was left on the navigation stack by earlier searches.
\<close>

subsection \<open>Search within results\<close>

text \<open>
  C1. For a non-blank query the filter builds the array of exactly the results of the
  full sequence \<open>rs\<close> whose case-folded title contains the case-folded query, in the
  order of \<open>rs\<close>, and shows it when it is not empty: whatever sequence was on display
  before (sorted, or filtered already). A second filter with another query, applied on
  top of the first, again gives the matches of that query in the full sequence.
\<close>

theorem search_within_results_filters_full_sequence:
  assumes "st = run lower lc ixs ins (enterResults older rs)"
    and "screen st = ResultsList"
    and "trim q \<noteq> []"
    and "st' = step lower lc ixs (Selected (search_results q)) st"
    and "trim q2 \<noteq> []"
    and "st'' = step lower lc ixs (Selected (search_results q2)) st'"
  shows "(\<exists>f. filteredResults st' = Some f \<and> deref st' f = matchingResults lower q rs)
       \<and> (matchingResults lower q rs \<noteq> [] \<longrightarrow> displayed st' = matchingResults lower q rs)
       \<and> fullResults st' = rs
       \<and> (\<exists>f. filteredResults st'' = Some f \<and> deref st'' f = matchingResults lower q2 rs)
       \<and> (matchingResults lower q2 rs \<noteq> [] \<longrightarrow> displayed st'' = matchingResults lower q2 rs)
       \<and> fullResults st'' = rs"
proof -
  have wf: "wellFormed rs st"
    unfolding assms(1) by (rule wellFormed_reachable)
  have st': "st' = searchResults lower q st"
    using assms(2,4) by simp
  have wf': "wellFormed rs st'"
    unfolding st' using wf assms(2) by (rule wellFormed_searchResults)
  have scr': "screen st' = ResultsList"
    unfolding st' using searchResults_effect(6) [OF wf assms(3)] assms(2) by simp
  have st'': "st'' = searchResults lower q2 st'"
    using scr' assms(6) by simp
  show ?thesis
    using searchResults_effect(1,2,5) [OF wf assms(3), of lower]
      searchResults_effect(1,2,5) [OF wf' assms(5), of lower]
    unfolding st'' st' [symmetric] by simp
qed

text \<open>
  An instance: after a sort, the filter \<open>UBU\<close> shows the Ubuntu entry; the filter
  \<open>deb\<close> on top of it shows the Debian entry, which the first filter had removed.
\<close>

theorem search_within_results_filters_full_sequence_witness:
  "screen (run asciiLower lengthCompare [] [Selected (sort_results title_desc)]
      (enterResults []
         [sampleResult ''Ubuntu 22.04'' None None NoDate, sampleResult ''Debian 12'' None None NoDate]))
     = ResultsList
   \<and> trim ''UBU'' \<noteq> [] \<and> trim ''deb'' \<noteq> []
   \<and> displayed (step asciiLower lengthCompare [] (Selected (search_results ''UBU''))
       (run asciiLower lengthCompare [] [Selected (sort_results title_desc)]
         (enterResults []
           [sampleResult ''Ubuntu 22.04'' None None NoDate, sampleResult ''Debian 12'' None None NoDate])))
     = [sampleResult ''Ubuntu 22.04'' None None NoDate]
   \<and> displayed (step asciiLower lengthCompare [] (Selected (search_results ''deb''))
       (step asciiLower lengthCompare [] (Selected (search_results ''UBU''))
       (run asciiLower lengthCompare [] [Selected (sort_results title_desc)]
         (enterResults []
           [sampleResult ''Ubuntu 22.04'' None None NoDate, sampleResult ''Debian 12'' None None NoDate]))))
     = [sampleResult ''Debian 12'' None None NoDate]"
proof -
  let ?rs = "[sampleResult ''Ubuntu 22.04'' None None NoDate, sampleResult ''Debian 12'' None None NoDate]"
  let ?st = "run asciiLower lengthCompare [] [Selected (sort_results title_desc)] (enterResults [] ?rs)"
  have h: "screen ?st = ResultsList"
    by (simp add: run_def loop_defs enterResults_def Let_def)
  have t1: "trim ''UBU'' \<noteq> []" and t2: "trim ''deb'' \<noteq> []"
    by (simp_all add: trim_def isWhiteSpace_def)
  have m1: "matchingResults asciiLower ''UBU'' ?rs = [sampleResult ''Ubuntu 22.04'' None None NoDate]"
    by (simp add: matchingResults_def asciiLower_def sampleResult_def sublist_code)
  have m2: "matchingResults asciiLower ''deb'' ?rs = [sampleResult ''Debian 12'' None None NoDate]"
    by (simp add: matchingResults_def asciiLower_def sampleResult_def sublist_code)
  show ?thesis
    using search_within_results_filters_full_sequence [OF refl h t1 refl t2 refl] h t1 t2 m1 m2
    by simp
qed

subsection \<open>Sorting\<close>

text \<open>
  C2 as stated fails where it says that the sorted sequence is ordered by the key's
  comparator for every sequence: with a publish date that does not parse between two
  dates that do, the date comparator separates the outer two results but neither from
  the middle one, and the sort leaves \<open>3, unparseable, 1\<close> as it is under \<open>date_asc\<close>.
\<close>

theorem sort_not_ordered_counterexample:
  "\<not> sorted_wrt (mayPrecede lengthCompare [] date_asc)
       (displayed (step asciiLower lengthCompare [] (Selected (sort_results date_asc))
          (enterResults [] [sampleResult ''A'' None None (ValidDate 3),
                            sampleResult ''B'' None None BadDate,
                            sampleResult ''C'' None None (ValidDate 1)])))"
  by (simp add: loop_defs enterResults_def sampleResult_def sortCompare_def mayPrecede_def)

text \<open>
  C2, amended. Sorting the sequence on display by any key gives a permutation of it in a
  new array: the array that was on display still holds the same sequence (also when it
  is the full array itself), and the full sequence is unchanged. The new sequence is
  ordered by the key's comparator (every element may precede every later one) provided
  that, for a date key, no result on display has a publish date that does not parse;
  \<open>localeCompare\<close> is taken to be a consistent comparison function.
\<close>

theorem sort_makes_sorted_copy:
  assumes "st = run lower lc ixs ins (enterResults older rs)"
    and "screen st = ResultsList"
    and "st' = step lower lc ixs (Selected (sort_results k)) st"
  shows "mset (displayed st') = mset (displayed st)
       \<and> deref st' (currentResults st) = displayed st
       \<and> currentResults st' \<noteq> currentResults st
       \<and> fullResults st' = rs
       \<and> (consistentComparator lc \<and> datesParse k (displayed st) \<longrightarrow>
            sorted_wrt (mayPrecede lc ixs k) (displayed st'))"
proof -
  have wf: "wellFormed rs st"
    unfolding assms(1) by (rule wellFormed_reachable)
  have st': "st' = sortResults lc ixs k st"
    using assms(2,3) by simp
  note eff = sortResults_effect [OF wf assms(2), of lc ixs k]
  have "sorted_wrt (mayPrecede lc ixs k) (displayed st')"
    if "consistentComparator lc" "datesParse k (displayed st)"
    unfolding st' eff(1) using that by (rule sorted_by_key)
  then show ?thesis
    unfolding st' using eff by simp
qed

text \<open>
  An instance: of \<open>abc, zz, a, ab\<close> the filter \<open>a\<close> leaves \<open>abc, a, ab\<close>; sorting by
  title (the sample collation goes by length) shows \<open>a, ab, abc\<close> in a new array, and
  the filtered array is as it was.
\<close>

theorem sort_makes_sorted_copy_witness:
  "screen (run asciiLower lengthCompare [] [Selected (search_results ''a'')]
       (enterResults [] [sampleResult ''abc'' None None NoDate, sampleResult ''zz'' None None NoDate,
                         sampleResult ''a'' None None NoDate, sampleResult ''ab'' None None NoDate]))
     = ResultsList
   \<and> consistentComparator lengthCompare
   \<and> datesParse title_asc (displayed (run asciiLower lengthCompare [] [Selected (search_results ''a'')]
       (enterResults [] [sampleResult ''abc'' None None NoDate, sampleResult ''zz'' None None NoDate,
                         sampleResult ''a'' None None NoDate, sampleResult ''ab'' None None NoDate])))
   \<and> displayed (step asciiLower lengthCompare [] (Selected (sort_results title_asc))
          (run asciiLower lengthCompare [] [Selected (search_results ''a'')]
            (enterResults [] [sampleResult ''abc'' None None NoDate, sampleResult ''zz'' None None NoDate,
                         sampleResult ''a'' None None NoDate, sampleResult ''ab'' None None NoDate])))
     = [sampleResult ''a'' None None NoDate, sampleResult ''ab'' None None NoDate,
        sampleResult ''abc'' None None NoDate]
   \<and> deref (step asciiLower lengthCompare [] (Selected (sort_results title_asc))
          (run asciiLower lengthCompare [] [Selected (search_results ''a'')]
            (enterResults [] [sampleResult ''abc'' None None NoDate, sampleResult ''zz'' None None NoDate,
                         sampleResult ''a'' None None NoDate, sampleResult ''ab'' None None NoDate])))
        (currentResults (run asciiLower lengthCompare [] [Selected (search_results ''a'')]
            (enterResults [] [sampleResult ''abc'' None None NoDate, sampleResult ''zz'' None None NoDate,
                         sampleResult ''a'' None None NoDate, sampleResult ''ab'' None None NoDate])))
     = [sampleResult ''abc'' None None NoDate, sampleResult ''a'' None None NoDate,
        sampleResult ''ab'' None None NoDate]
   \<and> sorted_wrt (mayPrecede lengthCompare [] title_asc)
        (displayed (step asciiLower lengthCompare [] (Selected (sort_results title_asc))
          (run asciiLower lengthCompare [] [Selected (search_results ''a'')]
            (enterResults [] [sampleResult ''abc'' None None NoDate, sampleResult ''zz'' None None NoDate,
                         sampleResult ''a'' None None NoDate, sampleResult ''ab'' None None NoDate]))))"
proof -
  let ?st = "run asciiLower lengthCompare [] [Selected (search_results ''a'')]
       (enterResults [] [sampleResult ''abc'' None None NoDate, sampleResult ''zz'' None None NoDate,
                         sampleResult ''a'' None None NoDate, sampleResult ''ab'' None None NoDate])"
  have h: "screen ?st = ResultsList"
    by (simp add: run_def loop_defs enterResults_def Let_def)
  have d: "datesParse title_asc (displayed ?st)"
    by (simp add: datesParse_def)
  have shown: "displayed ?st = [sampleResult ''abc'' None None NoDate,
      sampleResult ''a'' None None NoDate, sampleResult ''ab'' None None NoDate]"
    by (simp add: run_def loop_defs enterResults_def Let_def asciiLower_def sampleResult_def
          trim_def isWhiteSpace_def)
  have sorted: "displayed (step asciiLower lengthCompare [] (Selected (sort_results title_asc)) ?st)
     = [sampleResult ''a'' None None NoDate, sampleResult ''ab'' None None NoDate,
        sampleResult ''abc'' None None NoDate]"
    by (simp add: run_def loop_defs enterResults_def Let_def asciiLower_def sampleResult_def
          trim_def isWhiteSpace_def sortCompare_def lengthCompare_def)
  show ?thesis
    using sort_makes_sorted_copy [OF refl h refl, of title_asc] h d shown sorted
      consistent_lengthCompare
    by simp
qed

text \<open>
  C3. Sorting by a seeders or size key with results whose seeders or size is missing or
  null: the comparator returns a number (it has no failing branch and never yields
  \<open>NaN\<close>), a missing field on either side compares exactly as an explicit \<open>0\<close> there,
  and the sorted sequence puts every result where it stands when the missing fields are
  written out as \<open>0\<close>. The functions are deterministic, so this is so on every run.
\<close>

theorem missing_numeric_fields_sort_as_zero:
  assumes "k \<in> {seeders_desc, seeders_asc, size_desc, size_asc}"
  shows "(\<exists>n. compareResults lc ixs k a b = Num n)
       \<and> compareResults lc ixs k (a\<lparr>seeders := None\<rparr>) b
           = compareResults lc ixs k (a\<lparr>seeders := Some 0\<rparr>) b
       \<and> compareResults lc ixs k a (b\<lparr>seeders := None\<rparr>)
           = compareResults lc ixs k a (b\<lparr>seeders := Some 0\<rparr>)
       \<and> compareResults lc ixs k (a\<lparr>sizeBytes := None\<rparr>) b
           = compareResults lc ixs k (a\<lparr>sizeBytes := Some 0\<rparr>) b
       \<and> compareResults lc ixs k a (b\<lparr>sizeBytes := None\<rparr>)
           = compareResults lc ixs k a (b\<lparr>sizeBytes := Some 0\<rparr>)
       \<and> arraySort (compareResults lc ixs k) (map zeroFilled rs)
           = map zeroFilled (arraySort (compareResults lc ixs k) rs)"
proof -
  have z: "compareResults lc ixs k (zeroFilled x) (zeroFilled y) = compareResults lc ixs k x y"
    for x y
    using assms by (auto simp: zeroFilled_def)
  have "arraySort (compareResults lc ixs k) (map zeroFilled rs)
      = map zeroFilled (arraySort (compareResults lc ixs k) rs)"
    by (rule arraySort_map_commute) (rule z)
  then show ?thesis
    using assms by auto
qed

theorem missing_numeric_fields_sort_as_zero_witness:
  "seeders_desc \<in> {seeders_desc, seeders_asc, size_desc, size_asc}
   \<and> compareResults lengthCompare [] seeders_desc
        (sampleResult ''A'' (Some 5) None NoDate) (sampleResult ''B'' None None NoDate) = Num (- 5)
   \<and> arraySort (compareResults lengthCompare [] seeders_desc)
        [sampleResult ''A'' (Some 5) None NoDate, sampleResult ''B'' None None NoDate,
         sampleResult ''C'' (Some 20) None NoDate]
      = [sampleResult ''C'' (Some 20) None NoDate, sampleResult ''A'' (Some 5) None NoDate,
         sampleResult ''B'' None None NoDate]
   \<and> arraySort (compareResults lengthCompare [] seeders_desc)
        (map zeroFilled [sampleResult ''A'' (Some 5) None NoDate, sampleResult ''B'' None None NoDate,
         sampleResult ''C'' (Some 20) None NoDate])
      = map zeroFilled [sampleResult ''C'' (Some 20) None NoDate, sampleResult ''A'' (Some 5) None NoDate,
         sampleResult ''B'' None None NoDate]"
  using missing_numeric_fields_sort_as_zero [of seeders_desc lengthCompare "[]"
      "sampleResult ''A'' (Some 5) None NoDate" "sampleResult ''B'' None None NoDate"
      "[sampleResult ''A'' (Some 5) None NoDate, sampleResult ''B'' None None NoDate,
         sampleResult ''C'' (Some 20) None NoDate]"]
  by (simp add: sampleResult_def sortCompare_def)



text \<open>
  C5 as stated fails for a publish date that does not parse: it is not compared as the
  epoch. Against a result dated 1000 the comparator gives \<open>NaN\<close>, not \<open>-1000\<close>, and
  the sort leaves the pair in the order it came in, where a result dated at the epoch
  moves to the front.
\<close>

theorem invalid_date_not_epoch_counterexample:
  "compareResults lengthCompare [] date_asc
      (sampleResult ''A'' None None BadDate) (sampleResult ''B'' None None (ValidDate 1000))
    \<noteq> compareResults lengthCompare [] date_asc
      (sampleResult ''A'' None None (ValidDate 0)) (sampleResult ''B'' None None (ValidDate 1000))
   \<and> arraySort (compareResults lengthCompare [] date_asc)
        [sampleResult ''B'' None None (ValidDate 1000), sampleResult ''A'' None None BadDate]
      = [sampleResult ''B'' None None (ValidDate 1000), sampleResult ''A'' None None BadDate]
   \<and> arraySort (compareResults lengthCompare [] date_asc)
        [sampleResult ''B'' None None (ValidDate 1000), sampleResult ''A'' None None (ValidDate 0)]
      = [sampleResult ''A'' None None (ValidDate 0), sampleResult ''B'' None None (ValidDate 1000)]"
  by (simp add: sampleResult_def sortCompare_def)

text \<open>
  C5, amended. The date keys compare the parsed publish timestamps, a missing publish
  date counting as the epoch: the comparator and the sorted sequence are the same when
  every missing date is written out as timestamp \<open>0\<close>, and for two dates that are
  missing or parse the comparator is the difference of the timestamps. When either date
  does not parse the comparator is \<open>NaN\<close>, which the sort reads as a tie.
\<close>

theorem date_keys_compare_timestamps:
  assumes "k \<in> {date_desc, date_asc}"
  shows "compareResults lc ixs k (epochFilled a) (epochFilled b) = compareResults lc ixs k a b
       \<and> arraySort (compareResults lc ixs k) (map epochFilled rs)
           = map epochFilled (arraySort (compareResults lc ixs k) rs)
       \<and> (publishDate a \<noteq> BadDate \<and> publishDate b \<noteq> BadDate \<longrightarrow>
            compareResults lc ixs date_asc a b = Num (timestamp a - timestamp b)
            \<and> compareResults lc ixs date_desc a b = Num (timestamp b - timestamp a))
       \<and> (publishDate a = NoDate \<longrightarrow> timestamp a = 0)
       \<and> (publishDate a = BadDate \<or> publishDate b = BadDate \<longrightarrow>
            compareResults lc ixs k a b = NaN)"
proof -
  have e: "compareResults lc ixs k (epochFilled x) (epochFilled y) = compareResults lc ixs k x y"
    for x y
    using assms
    by (cases "publishDate x"; cases "publishDate y") (auto simp: epochFilled_def)
  have s: "arraySort (compareResults lc ixs k) (map epochFilled rs)
      = map epochFilled (arraySort (compareResults lc ixs k) rs)"
    by (rule arraySort_map_commute) (rule e)
  have t: "publishDate a \<noteq> BadDate \<and> publishDate b \<noteq> BadDate \<longrightarrow>
            compareResults lc ixs date_asc a b = Num (timestamp a - timestamp b)
            \<and> compareResults lc ixs date_desc a b = Num (timestamp b - timestamp a)"
    by (cases "publishDate a"; cases "publishDate b") (simp_all add: timestamp_def)
  have n: "publishDate a = BadDate \<or> publishDate b = BadDate \<longrightarrow>
            compareResults lc ixs k a b = NaN"
    using assms by (cases "publishDate a"; cases "publishDate b") auto
  show ?thesis
    using e s t n by (simp add: timestamp_def)
qed

theorem date_keys_compare_timestamps_witness:
  "date_asc \<in> {date_desc, date_asc}
   \<and> compareResults lengthCompare [] date_asc
        (sampleResult ''A'' None None NoDate) (sampleResult ''B'' None None (ValidDate 1000))
      = Num (- 1000)
   \<and> compareResults lengthCompare [] date_asc
        (epochFilled (sampleResult ''A'' None None NoDate))
        (epochFilled (sampleResult ''B'' None None (ValidDate 1000)))
      = Num (- 1000)
   \<and> arraySort (compareResults lengthCompare [] date_asc)
        [sampleResult ''B'' None None (ValidDate 1000), sampleResult ''A'' None None NoDate]
      = [sampleResult ''A'' None None NoDate, sampleResult ''B'' None None (ValidDate 1000)]"
  using date_keys_compare_timestamps [of date_asc lengthCompare "[]"
      "sampleResult ''A'' None None NoDate" "sampleResult ''B'' None None (ValidDate 1000)" "[]"]
  by (simp add: sampleResult_def sortCompare_def epochFilled_def timestamp_def)

subsection \<open>The results view\<close>

text \<open>
  C6. In every state of the results loop the array \<open>results\<close> still holds the full
  sequence \<open>rs\<close> of the search, and as long as the results view is open (in the list or
  in the detail view of one result) the sequence on display is a permutation of a part of
  \<open>rs\<close>: its elements are elements of \<open>rs\<close>, none more often than in \<open>rs\<close>. Show-all
  puts \<open>rs\<close> itself back on display. (On leaving for the main menu the code assigns the
  popped navigation entry to \<open>currentResults\<close>, which nothing displays any more.)
\<close>

theorem displayed_within_full_results:
  assumes "st = run lower lc ixs ins (enterResults older rs)"
  shows "fullResults st = rs
       \<and> (screen st \<noteq> MainMenu \<longrightarrow> mset (displayed st) \<subseteq># mset rs)
       \<and> (screen st = ResultsList \<longrightarrow>
            displayed (step lower lc ixs (Selected show_all) st) = rs
            \<and> \<not> isFiltered (step lower lc ixs (Selected show_all) st))"
proof -
  have wf: "wellFormed rs st"
    unfolding assms by (rule wellFormed_reachable)
  have "displayed (showAll st) = fullResults st"
    by (simp add: showAll_def displayed_def fullResults_def deref_def)
  then show ?thesis
    using wellFormed_fullResults [OF wf] wellFormed_displayed [OF wf]
    by (simp add: showAll_def)
qed

theorem displayed_within_full_results_witness:
  "screen (run asciiLower lengthCompare []
      [Selected (search_results ''ubu''), Selected (sort_results title_desc),
       Selected (item (sampleResult ''Ubuntu 22.04'' None None NoDate)), Action go_back]
      (enterResults [[sampleResult ''old'' None None NoDate]]
         [sampleResult ''Ubuntu 22.04'' None None NoDate, sampleResult ''Debian 12'' None None NoDate]))
     = ResultsList
   \<and> fullResults (run asciiLower lengthCompare []
      [Selected (search_results ''ubu''), Selected (sort_results title_desc),
       Selected (item (sampleResult ''Ubuntu 22.04'' None None NoDate)), Action go_back]
      (enterResults [[sampleResult ''old'' None None NoDate]]
         [sampleResult ''Ubuntu 22.04'' None None NoDate, sampleResult ''Debian 12'' None None NoDate]))
     = [sampleResult ''Ubuntu 22.04'' None None NoDate, sampleResult ''Debian 12'' None None NoDate]
   \<and> mset (displayed (run asciiLower lengthCompare []
      [Selected (search_results ''ubu''), Selected (sort_results title_desc),
       Selected (item (sampleResult ''Ubuntu 22.04'' None None NoDate)), Action go_back]
      (enterResults [[sampleResult ''old'' None None NoDate]]
         [sampleResult ''Ubuntu 22.04'' None None NoDate, sampleResult ''Debian 12'' None None NoDate])))
     \<subseteq># mset [sampleResult ''Ubuntu 22.04'' None None NoDate, sampleResult ''Debian 12'' None None NoDate]
   \<and> displayed (step asciiLower lengthCompare [] (Selected show_all)
     (run asciiLower lengthCompare []
      [Selected (search_results ''ubu''), Selected (sort_results title_desc),
       Selected (item (sampleResult ''Ubuntu 22.04'' None None NoDate)), Action go_back]
      (enterResults [[sampleResult ''old'' None None NoDate]]
         [sampleResult ''Ubuntu 22.04'' None None NoDate, sampleResult ''Debian 12'' None None NoDate])))
     = [sampleResult ''Ubuntu 22.04'' None None NoDate, sampleResult ''Debian 12'' None None NoDate]"
proof -
  let ?st = "run asciiLower lengthCompare []
      [Selected (search_results ''ubu''), Selected (sort_results title_desc),
       Selected (item (sampleResult ''Ubuntu 22.04'' None None NoDate)), Action go_back]
      (enterResults [[sampleResult ''old'' None None NoDate]]
         [sampleResult ''Ubuntu 22.04'' None None NoDate, sampleResult ''Debian 12'' None None NoDate])"
  have h: "screen ?st = ResultsList"
    by (simp add: run_def loop_defs enterResults_def Let_def)
  show ?thesis
    using displayed_within_full_results [OF refl, of asciiLower lengthCompare "[]"
      "[Selected (search_results ''ubu''), Selected (sort_results title_desc),
       Selected (item (sampleResult ''Ubuntu 22.04'' None None NoDate)), Action go_back]"
      "[[sampleResult ''old'' None None NoDate]]"
      "[sampleResult ''Ubuntu 22.04'' None None NoDate, sampleResult ''Debian 12'' None None NoDate]"]
      h
    by simp
qed

text \<open>
  C7. A non-blank query that matches no title of the full sequence: the step has no
  failing branch, the message that nothing matched is printed, the loop is back at the
  results list, and \<open>currentResults\<close>, the sequence on display and \<open>isFiltered\<close> are
  what they were.
\<close>

theorem empty_match_set_keeps_the_view:
  assumes "st = run lower lc ixs ins (enterResults older rs)"
    and "screen st = ResultsList"
    and "trim q \<noteq> []"
    and "matchingResults lower q rs = []"
    and "st' = step lower lc ixs (Selected (search_results q)) st"
  shows "screen st' = ResultsList
       \<and> console st' = console st @ [NoMatchesFound]
       \<and> currentResults st' = currentResults st
       \<and> displayed st' = displayed st
       \<and> isFiltered st' = isFiltered st
       \<and> fullResults st' = rs"
proof -
  have wf: "wellFormed rs st"
    unfolding assms(1) by (rule wellFormed_reachable)
  have st': "st' = searchResults lower q st"
    using assms(2,5) by simp
  have "screen st \<noteq> MainMenu"
    using assms(2) by simp
  then show ?thesis
    using searchResults_effect(3,4,5,6) [OF wf assms(3), of lower] assms(2,4)
    unfolding st' by simp
qed

theorem empty_match_set_keeps_the_view_witness:
  "screen (run asciiLower lengthCompare [] [Selected (search_results ''ubu'')]
      (enterResults []
         [sampleResult ''Ubuntu 22.04'' None None NoDate, sampleResult ''Debian 12'' None None NoDate]))
     = ResultsList
   \<and> trim ''xyz'' \<noteq> []
   \<and> matchingResults asciiLower ''xyz''
        [sampleResult ''Ubuntu 22.04'' None None NoDate, sampleResult ''Debian 12'' None None NoDate] = []
   \<and> displayed (step asciiLower lengthCompare [] (Selected (search_results ''xyz''))
       (run asciiLower lengthCompare [] [Selected (search_results ''ubu'')]
         (enterResults []
           [sampleResult ''Ubuntu 22.04'' None None NoDate, sampleResult ''Debian 12'' None None NoDate])))
     = [sampleResult ''Ubuntu 22.04'' None None NoDate]
   \<and> isFiltered (step asciiLower lengthCompare [] (Selected (search_results ''xyz''))
       (run asciiLower lengthCompare [] [Selected (search_results ''ubu'')]
         (enterResults []
           [sampleResult ''Ubuntu 22.04'' None None NoDate, sampleResult ''Debian 12'' None None NoDate])))"
proof -
  let ?rs = "[sampleResult ''Ubuntu 22.04'' None None NoDate, sampleResult ''Debian 12'' None None NoDate]"
  let ?st = "run asciiLower lengthCompare [] [Selected (search_results ''ubu'')] (enterResults [] ?rs)"
  have h: "screen ?st = ResultsList"
    by (simp add: run_def loop_defs enterResults_def Let_def)
  have t: "trim ''xyz'' \<noteq> []"
    by (simp add: trim_def isWhiteSpace_def)
  have m: "matchingResults asciiLower ''xyz'' ?rs = []"
    by (simp add: matchingResults_def asciiLower_def sampleResult_def sublist_code)
  have d: "displayed ?st = [sampleResult ''Ubuntu 22.04'' None None NoDate]"
    and f: "isFiltered ?st"
    by (simp_all add: run_def loop_defs enterResults_def Let_def asciiLower_def sampleResult_def
          trim_def isWhiteSpace_def)
  show ?thesis
    using empty_match_set_keeps_the_view [OF refl h t m refl] h t m d f
    by simp
qed

subsection \<open>The configuration file\<close>



subsection \<open>The query string\<close>


subsection \<open>Sizes\<close>

text \<open>
  C10. \<open>formatSize\<close> gives \<open>Unknown\<close> for a missing size and for a size of \<open>0\<close>, and
  for a positive size below \<open>1024^5\<close> a value with two decimals and the unit of the
  largest power of 1024 that is not above it (\<open>formatSize_in_range\<close>). C10 says so for
  every positive size, but the table of units ends at \<open>TB\<close>: for 2 PiB the code
  prints \<open>2.00 undefined\<close>, and it prints that word for every size from \<open>1024^5\<close> on
  (\<open>formatSize_beyond_units\<close>).
\<close>

theorem formatSize_unit_runs_out:
  "formatSize None = ''Unknown''
   \<and> formatSize (Some 0) = ''Unknown''
   \<and> formatSize (Some 1536) = ''1.50 KB''
   \<and> formatSize (Some 2251799813685248) = ''2.00 undefined''"
  by (simp add: formatSize_def Let_def sizes_def toFixed2_def floorLog1024.simps showNat.simps
        digitChar_def)

end
